theory Spec2Isabelle
  imports Complex_Main "HOL-Library.Char_ord" "HOL-Library.List_Lexorder"
begin

section \<open>Data model: tables of cells\<close>

text \<open>
  The script \<^verbatim>\<open>food_safety_analysis.py\<close> works on pandas tables. A cell of a table
  read from a CSV file is missing (\<^verbatim>\<open>NaN\<close>), a number or a string. The outbreak
  counts are integers, so numbers are modelled as \<open>int\<close>.
\<close>

datatype cell = NaN | Num int | Str string

datatype col =
    Year | Month | State | Location | Food | Ingredient | Species
  | Serotype_Genotype | Status | Illnesses | Hospitalizations | Fatalities
  | Hospitalized

datatype error = TypeError | ValueError | NameError | IndexError

type_synonym row = "col \<Rightarrow> cell"

text \<open>
  A table is its list of rows together with the one piece of column typing the script
  inspects: whether \<^verbatim>\<open>df[col].dtype.name == 'category'\<close>.
\<close>

record frame =
  rows :: "row list"
  is_category :: "col \<Rightarrow> bool"

text \<open>
  The interpreter state: a heap of table objects and the two variables \<^verbatim>\<open>df\<close> and
  \<^verbatim>\<open>df_cleaned\<close>, each unbound or bound to the address of a table.
\<close>

record pystate =
  heap :: "nat \<Rightarrow> frame option"
  next_addr :: nat
  df :: "nat option"
  df_cleaned :: "nat option"

definition init_state :: pystate where
  "init_state = \<lparr>heap = (\<lambda>_. None), next_addr = 0, df = None, df_cleaned = None\<rparr>"

definition bnd :: "error + 'a \<Rightarrow> ('a \<Rightarrow> error + 'b) \<Rightarrow> error + 'b" where
  "bnd m k = (case m of Inl e \<Rightarrow> Inl e | Inr x \<Rightarrow> k x)"

definition alloc :: "frame \<Rightarrow> pystate \<Rightarrow> nat \<times> pystate" where
  "alloc f s =
     (next_addr s, s\<lparr>heap := (heap s)(next_addr s \<mapsto> f), next_addr := Suc (next_addr s)\<rparr>)"

definition deref :: "pystate \<Rightarrow> nat option \<Rightarrow> error + frame" where
  "deref s v =
     (case v of None \<Rightarrow> Inl NameError
      | Some a \<Rightarrow> (case heap s a of None \<Rightarrow> Inl NameError | Some f \<Rightarrow> Inr f))"

text \<open>An in-place change of the table a variable points to.\<close>

definition mutate :: "nat option \<Rightarrow> (frame \<Rightarrow> error + frame) \<Rightarrow> pystate \<Rightarrow> error + pystate" where
  "mutate v F s =
     (case v of None \<Rightarrow> Inl NameError
      | Some a \<Rightarrow>
          (case heap s a of None \<Rightarrow> Inl NameError
           | Some f \<Rightarrow> bnd (F f) (\<lambda>f'. Inr (s\<lparr>heap := (heap s)(a \<mapsto> f')\<rparr>))))"

section \<open>Ingestion and cleaning (lines 12 to 35)\<close>

text \<open>\<^verbatim>\<open>pd.read_csv\<close> never infers the category dtype.\<close>

definition read_csv :: "row list \<Rightarrow> frame" where
  "read_csv csv = \<lparr>rows = csv, is_category = (\<lambda>_. False)\<rparr>"

definition categorical_cols :: "col list" where
  "categorical_cols = [Location, Food, Ingredient, Species, Serotype_Genotype, Status]"

text \<open>
  \<^verbatim>\<open>df[cols] = df[cols].fillna(v)\<close>: every missing cell of the named columns becomes
  \<open>v\<close>; every other cell stays.
\<close>

definition fillna_row :: "col list \<Rightarrow> cell \<Rightarrow> row \<Rightarrow> row" where
  "fillna_row cols v r = (\<lambda>c. if c \<in> set cols \<and> r c = NaN then v else r c)"

definition fillna :: "col list \<Rightarrow> cell \<Rightarrow> frame \<Rightarrow> frame" where
  "fillna cols v f = f\<lparr>rows := map (fillna_row cols v) (rows f)\<rparr>"

text \<open>\<^verbatim>\<open>df[col] = df[col].astype('category')\<close> keeps the values and changes the dtype.\<close>

definition astype_category :: "col \<Rightarrow> frame \<Rightarrow> frame" where
  "astype_category c f = f\<lparr>is_category := (is_category f)(c := True)\<rparr>"

definition astype_loop :: "col list \<Rightarrow> frame \<Rightarrow> frame" where
  "astype_loop cols f = fold astype_category cols f"

text \<open>
  \<^verbatim>\<open>lambda x: 1 if x > 0 else 0\<close>. A comparison with \<^verbatim>\<open>NaN\<close> is false; comparing a
  string with \<^verbatim>\<open>0\<close> raises \<^verbatim>\<open>TypeError\<close>.
\<close>

definition hospitalized_flag :: "cell \<Rightarrow> error + cell" where
  "hospitalized_flag x =
     (case x of
        Num v \<Rightarrow> Inr (Num (if v > 0 then 1 else 0))
      | NaN \<Rightarrow> Inr (Num 0)
      | Str s \<Rightarrow> Inl TypeError)"

text \<open>
  \<^verbatim>\<open>Series.apply\<close>, and any other elementwise pass over a column: the function on every
  element in turn; the first raise ends it.
\<close>

fun apply_series :: "('a \<Rightarrow> error + 'b) \<Rightarrow> 'a list \<Rightarrow> error + 'b list" where
  "apply_series g [] = Inr []"
| "apply_series g (x # xs) =
     bnd (g x) (\<lambda>y. bnd (apply_series g xs) (\<lambda>ys. Inr (y # ys)))"

definition column :: "frame \<Rightarrow> col \<Rightarrow> cell list" where
  "column f c = map (\<lambda>r. r c) (rows f)"

text \<open>\<^verbatim>\<open>df[c] = values\<close> with a plain list of values, one per row.\<close>

definition set_column :: "col \<Rightarrow> cell list \<Rightarrow> frame \<Rightarrow> error + frame" where
  "set_column c vals f =
     (if length vals \<noteq> length (rows f) then Inl ValueError
      else Inr (f\<lparr>rows := map (\<lambda>(r, v). r(c := v)) (zip (rows f) vals),
                 is_category := (is_category f)(c := False)\<rparr>))"

definition derive_hospitalized :: "frame \<Rightarrow> error + frame" where
  "derive_hospitalized f =
     bnd (apply_series hospitalized_flag (column f Hospitalizations))
       (\<lambda>vals. set_column Hospitalized vals f)"

text \<open>Lines 24 to 35 as one change of the table \<^verbatim>\<open>df_cleaned\<close> points to.\<close>

definition clean_frame :: "frame \<Rightarrow> error + frame" where
  "clean_frame f =
     derive_hospitalized
       (astype_loop (categorical_cols @ [State, Month])
          (fillna [Hospitalizations, Fatalities] (Num 0)
             (fillna categorical_cols (Str ''Unknown'') f)))"

text \<open>
  The script from \<^verbatim>\<open>df = pd.read_csv(...)\<close> to the derivation of the label, statement
  by statement on the interpreter state.
\<close>

definition cleaning :: "row list \<Rightarrow> error + pystate" where
  "cleaning csv =
     (let (a, s1) = alloc (read_csv csv) init_state;
          s2 = s1\<lparr>df := Some a\<rparr>
      in bnd (deref s2 (df s2)) (\<lambda>f.
           let (b, s3) = alloc f s2;
               s4 = s3\<lparr>df_cleaned := Some b\<rparr>
           in bnd (mutate (df_cleaned s4)
                     (\<lambda>g. Inr (fillna categorical_cols (Str ''Unknown'') g)) s4) (\<lambda>s5.
              bnd (mutate (df_cleaned s5)
                     (\<lambda>g. Inr (fillna [Hospitalizations, Fatalities] (Num 0) g)) s5) (\<lambda>s6.
              bnd (mutate (df_cleaned s6)
                     (\<lambda>g. Inr (astype_loop (categorical_cols @ [State, Month]) g)) s6) (\<lambda>s7.
              mutate (df_cleaned s7) derive_hospitalized s7)))))"

text \<open>The raw and the cleaned table at the end of the cleaning block.\<close>

definition raw_table :: "row list \<Rightarrow> error + frame" where
  "raw_table csv = bnd (cleaning csv) (\<lambda>s. deref s (df s))"

definition clean :: "row list \<Rightarrow> error + frame" where
  "clean csv = bnd (cleaning csv) (\<lambda>s. deref s (df_cleaned s))"

definition missing :: "cell \<Rightarrow> bool" where
  "missing x = (x = NaN)"

text \<open>What the two \<^verbatim>\<open>fillna\<close> statements together do to one row.\<close>

definition filled :: "row \<Rightarrow> row" where
  "filled r = fillna_row [Hospitalizations, Fatalities] (Num 0)
                (fillna_row categorical_cols (Str ''Unknown'') r)"

text \<open>\<^verbatim>\<open>df_cleaned[c]\<close> at the end of the cleaning block.\<close>

definition cleaned_column :: "row list \<Rightarrow> col \<Rightarrow> error + cell list" where
  "cleaned_column csv c = bnd (clean csv) (\<lambda>g. Inr (column g c))"

text \<open>
  Sample input: the three outbreak reports of the end-to-end scenario, the third with no
  Location and no Food entry.
\<close>

definition blank_row :: row where
  "blank_row = (\<lambda>_. NaN)"

definition example_rows :: "row list" where
  "example_rows =
     [blank_row(Year := Num 2010, Month := Str ''May'', State := Str ''CA'',
        Location := Str ''Restaurant'', Food := Str ''Chicken'', Illnesses := Num 5,
        Hospitalizations := Num 2),
      blank_row(Year := Num 2011, Month := Str ''June'', State := Str ''TX'',
        Location := Str ''Home'', Food := Str ''Beef'', Illnesses := Num 3,
        Hospitalizations := Num 0, Fatalities := Num 0),
      blank_row(Year := Num 2012, Month := Str ''July'', State := Str ''CA'',
        Illnesses := Num 4, Hospitalizations := Num 1)]"

text \<open>A report whose Location entry is the text \<^verbatim>\<open>Unknown\<close> itself.\<close>

definition unknown_row :: row where
  "unknown_row = blank_row(Year := Num 2013, Month := Str ''May'', State := Str ''CA'',
        Location := Str ''Unknown'', Food := Str ''Eggs'', Illnesses := Num 2,
        Hospitalizations := Num 1)"

text \<open>A report with an empty Month entry.\<close>

definition no_month_row :: row where
  "no_month_row = blank_row(Year := Num 2013, State := Str ''CA'',
        Location := Str ''Home'', Food := Str ''Eggs'', Illnesses := Num 2,
        Hospitalizations := Num 1)"

text \<open>A file of one report with no Hospitalizations and no Fatalities entry.\<close>

definition absent_count_rows :: "row list" where
  "absent_count_rows =
     [blank_row(Year := Num 2014, Month := Str ''March'', State := Str ''NY'',
        Location := Str ''Restaurant'', Food := Str ''Salad'', Illnesses := Num 7)]"

section \<open>Evaluation metrics (lines 239 to 265)\<close>

text \<open>
  \<^verbatim>\<open>sklearn.metrics.confusion_matrix(y_true, y_pred)\<close> with no \<^verbatim>\<open>labels\<close> argument:
  the labels are the sorted distinct values of both vectors; entry \<open>(a, p)\<close> counts the
  samples whose actual label is the \<open>a\<close>-th and whose predicted label is the \<open>p\<close>-th.
  Vectors of different lengths raise \<^verbatim>\<open>ValueError\<close>.
\<close>

definition unique_labels :: "int list \<Rightarrow> int list \<Rightarrow> int list" where
  "unique_labels y_true y_pred = sort (remdups (y_true @ y_pred))"

definition confusion_matrix :: "int list \<Rightarrow> int list \<Rightarrow> error + nat list list" where
  "confusion_matrix y_true y_pred =
     (if length y_true \<noteq> length y_pred then Inl ValueError
      else
        let labels = unique_labels y_true y_pred
        in Inr (map (\<lambda>a. map (\<lambda>p. length (filter (\<lambda>(t, q). t = a \<and> q = p)
                                             (zip y_true y_pred))) labels) labels))"

text \<open>
  \<^verbatim>\<open>sklearn.metrics.accuracy_score(y_true, y_pred)\<close>: the fraction of positions where the
  two vectors agree. On empty vectors the mean is \<^verbatim>\<open>nan\<close>, here \<open>None\<close>.
\<close>

definition accuracy_score :: "int list \<Rightarrow> int list \<Rightarrow> error + real option" where
  "accuracy_score y_true y_pred =
     (if length y_true \<noteq> length y_pred then Inl ValueError
      else if y_true = [] then Inr None
      else Inr (Some (real (length (filter (\<lambda>(t, q). t = q) (zip y_true y_pred)))
                       / real (length y_true))))"

section \<open>Train/test split (lines 100 and 155)\<close>

text \<open>
  \<^verbatim>\<open>train_test_split(X, y, test_size=0.3, random_state=42)\<close> of scikit-learn, with no
  stratification. The pseudo-random generator is not part of the script; it is a
  parameter: \<open>seeded\<close> is \<^verbatim>\<open>RandomState(seed)\<close> and \<open>permutation g n\<close> draws an
  arrangement of the row numbers below \<open>n\<close> from the generator state \<open>g\<close> and gives
  the state after the draw.
\<close>

record 'g generator =
  seeded :: "nat \<Rightarrow> 'g"
  permutation :: "'g \<Rightarrow> nat \<Rightarrow> nat list \<times> 'g"

text \<open>
  The test share \<open>num / den\<close> of \<open>n\<close> rows, rounded up. For the share 3/10 and any
  table of fewer than \<open>10 ^ 14\<close> rows this is the value of \<^verbatim>\<open>ceil(0.3 * n)\<close> in
  double precision as well.
\<close>

definition n_test_of :: "nat \<Rightarrow> nat \<Rightarrow> nat \<Rightarrow> nat" where
  "n_test_of num den n = (num * n + den - 1) div den"

text \<open>
  The row numbers of the training and of the test partition. An integer
  \<^verbatim>\<open>random_state\<close> makes a fresh generator and leaves the process-wide one (\<open>global\<close>)
  alone; \<^verbatim>\<open>random_state=None\<close> draws from the process-wide one. An empty training
  partition raises \<^verbatim>\<open>ValueError\<close>.
\<close>

definition split_indices ::
  "'g generator \<Rightarrow> nat \<Rightarrow> nat \<Rightarrow> nat \<Rightarrow> nat option \<Rightarrow> 'g \<Rightarrow> (error + nat list \<times> nat list) \<times> 'g" where
  "split_indices rng n num den random_state global =
     (let n_test = n_test_of num den n;
          n_train = n - n_test
      in if n_train = 0 then (Inl ValueError, global)
         else
           (case random_state of
              Some seed \<Rightarrow>
                (let (perm, _) = permutation rng (seeded rng seed) n
                 in (Inr (take n_train (drop n_test perm), take n_test perm), global))
            | None \<Rightarrow>
                (let (perm, global') = permutation rng global n
                 in (Inr (take n_train (drop n_test perm), take n_test perm), global'))))"

definition take_rows :: "'a list \<Rightarrow> nat list \<Rightarrow> error + 'a list" where
  "take_rows xs idx =
     (if list_all (\<lambda>i. i < length xs) idx then Inr (map (\<lambda>i. xs ! i) idx)
      else Inl IndexError)"

definition train_test_split ::
  "'g generator \<Rightarrow> 'a list \<Rightarrow> 'b list \<Rightarrow> nat \<Rightarrow> nat \<Rightarrow> nat option \<Rightarrow> 'g \<Rightarrow>
     (error + ('a list \<times> 'a list \<times> 'b list \<times> 'b list)) \<times> 'g" where
  "train_test_split rng X y num den random_state global =
     (if length X \<noteq> length y then (Inl ValueError, global)
      else
        (case split_indices rng (length X) num den random_state global of
           (Inl e, global') \<Rightarrow> (Inl e, global')
         | (Inr (train, test), global') \<Rightarrow>
             (bnd (take_rows X train) (\<lambda>X_train.
              bnd (take_rows X test) (\<lambda>X_test.
              bnd (take_rows y train) (\<lambda>y_train.
              bnd (take_rows y test) (\<lambda>y_test.
              Inr (X_train, X_test, y_train, y_test))))), global')))"

text \<open>
  \<^verbatim>\<open>StandardScaler().fit_transform(X)\<close>: column statistics fitted on the whole matrix,
  then every row transformed with them. The floating-point arithmetic is left open as
  the two parameters \<open>fit\<close> and \<open>transform_row\<close>.
\<close>

definition fit_transform :: "('a list \<Rightarrow> 'p) \<Rightarrow> ('p \<Rightarrow> 'a \<Rightarrow> 'b) \<Rightarrow> 'a list \<Rightarrow> 'b list" where
  "fit_transform fit transform_row X = map (transform_row (fit X)) X"

text \<open>Line 100, the split for the tree model, and line 155, the split for the network.\<close>

definition tree_split ::
  "'g generator \<Rightarrow> 'a list \<Rightarrow> 'b list \<Rightarrow> 'g \<Rightarrow> (error + ('a list \<times> 'a list \<times> 'b list \<times> 'b list)) \<times> 'g" where
  "tree_split rng X y global = train_test_split rng X y 3 10 (Some 42) global"

definition network_split ::
  "'g generator \<Rightarrow> ('a list \<Rightarrow> 'p) \<Rightarrow> ('p \<Rightarrow> 'a \<Rightarrow> 'c) \<Rightarrow> 'a list \<Rightarrow> 'b list \<Rightarrow> 'g \<Rightarrow>
     (error + ('c list \<times> 'c list \<times> 'b list \<times> 'b list)) \<times> 'g" where
  "network_split rng fit transform_row X y global =
     train_test_split rng (fit_transform fit transform_row X) y 3 10 (Some 42) global"

text \<open>The held-out row numbers of a split of \<open>n\<close> rows with ratio 0.3 and seed 42.\<close>

definition held_out :: "'g generator \<Rightarrow> nat \<Rightarrow> 'g \<Rightarrow> error + nat list" where
  "held_out rng n global = map_sum id snd (fst (split_indices rng n 3 10 (Some 42) global))"

text \<open>A stand-in generator for concrete runs: it always deals the rows in reverse.\<close>

definition reversing_generator :: "nat generator" where
  "reversing_generator = \<lparr>seeded = (\<lambda>seed. seed), permutation = (\<lambda>g n. (rev [0..<n], Suc g))\<rparr>"

definition sample_matrix :: "int list list" where
  "sample_matrix = [[2010, 1, 0, 1, 1], [2011, 0, 1, 0, 0], [2012, 2, 0, 1, 1], [2013, 1, 1, 0, 2]]"

section \<open>Feature encoding (lines 86 to 95 and 136 to 144)\<close>

text \<open>
  \<^verbatim>\<open>sklearn.preprocessing.LabelEncoder\<close>. Fitting collects the distinct labels in sorted
  order, a missing value last; the labels must be uniformly strings or uniformly
  numbers, otherwise \<^verbatim>\<open>TypeError\<close>. Strings compare as Python compares them, character
  by character.
\<close>

fun strs :: "cell list \<Rightarrow> string list" where
  "strs [] = []"
| "strs (Str s # xs) = s # strs xs"
| "strs (x # xs) = strs xs"

fun nums :: "cell list \<Rightarrow> int list" where
  "nums [] = []"
| "nums (Num v # xs) = v # nums xs"
| "nums (x # xs) = nums xs"

definition le_fit :: "cell list \<Rightarrow> error + cell list" where
  "le_fit y =
     (if strs y \<noteq> [] \<and> nums y \<noteq> [] then Inl TypeError
      else Inr (map Str (sort (remdups (strs y))) @ map Num (sort (remdups (nums y))) @
                (if NaN \<in> set y then [NaN] else [])))"

fun index_of :: "'a \<Rightarrow> 'a list \<Rightarrow> nat option" where
  "index_of x [] = None"
| "index_of x (c # cs) = (if x = c then Some 0 else map_option Suc (index_of x cs))"

text \<open>
  \<^verbatim>\<open>transform\<close> gives each label its position among the classes; a label that was not
  fitted raises \<^verbatim>\<open>ValueError\<close>. \<^verbatim>\<open>inverse_transform\<close> reads the class at each code.
\<close>

definition le_transform :: "cell list \<Rightarrow> cell list \<Rightarrow> error + nat list" where
  "le_transform classes y =
     apply_series (\<lambda>x. case index_of x classes of None \<Rightarrow> Inl ValueError | Some k \<Rightarrow> Inr k) y"

definition le_inverse_transform :: "cell list \<Rightarrow> nat list \<Rightarrow> error + cell list" where
  "le_inverse_transform classes codes =
     apply_series (\<lambda>k. if k < length classes then Inr (classes ! k) else Inl ValueError) codes"

definition le_fit_transform :: "cell list \<Rightarrow> error + cell list \<times> nat list" where
  "le_fit_transform y =
     bnd (le_fit y) (\<lambda>classes. bnd (le_transform classes y) (\<lambda>codes. Inr (classes, codes)))"

definition features :: "col list" where
  "features = [Year, Month, State, Location, Food]"

text \<open>
  The loop \<^verbatim>\<open>for col in features\<close>: a column of category dtype is replaced by its codes
  and its encoder is stored in \<^verbatim>\<open>le_dict\<close>; any other column is passed over.
\<close>

fun encode_loop ::
  "col list \<Rightarrow> frame \<times> (col \<Rightarrow> cell list option) \<Rightarrow> error + frame \<times> (col \<Rightarrow> cell list option)" where
  "encode_loop [] (f, le_dict) = Inr (f, le_dict)"
| "encode_loop (c # cs) (f, le_dict) =
     (if is_category f c then
        bnd (le_fit_transform (column f c)) (\<lambda>(classes, codes).
        bnd (set_column c (map (\<lambda>k. Num (int k)) codes) f) (\<lambda>f'.
        encode_loop cs (f', le_dict(c \<mapsto> classes))))
      else encode_loop cs (f, le_dict))"

definition encode :: "frame \<Rightarrow> error + frame \<times> (col \<Rightarrow> cell list option)" where
  "encode f = encode_loop features (f, Map.empty)"

definition uniform :: "cell list \<Rightarrow> bool" where
  "uniform y = (strs y = [] \<or> nums y = [])"



section \<open>Properties of cleaning\<close>

lemma bnd_simps [simp]:
  "bnd (Inl e) k = Inl e"
  "bnd (Inr x) k = k x"
  by (simp_all add: bnd_def)

lemma bnd_eq_Inr: "bnd m k = Inr y \<longleftrightarrow> (\<exists>x. m = Inr x \<and> k x = Inr y)"
  by (cases m) simp_all

lemma apply_series_length: "apply_series g xs = Inr ys \<Longrightarrow> length ys = length xs"
  by (induction xs arbitrary: ys) (auto simp: bnd_eq_Inr)

lemma apply_series_nth:
  "apply_series g xs = Inr ys \<Longrightarrow> i < length xs \<Longrightarrow> g (xs ! i) = Inr (ys ! i)"
proof (induction xs arbitrary: ys i)
  case Nil
  then show ?case by simp
next
  case (Cons x xs)
  then show ?case by (cases i) (auto simp: bnd_eq_Inr)
qed

lemma apply_series_total:
  "(\<And>x. x \<in> set xs \<Longrightarrow> \<exists>y. g x = Inr y) \<Longrightarrow> \<exists>ys. apply_series g xs = Inr ys"
proof (induction xs)
  case Nil
  then show ?case by simp
next
  case (Cons x xs)
  then obtain y ys where "g x = Inr y" "apply_series g xs = Inr ys"
    by (meson list.set_intros)
  then show ?case by simp
qed

lemma cleaning_eq:
  "cleaning csv =
     bnd (clean_frame (read_csv csv))
       (\<lambda>f'. Inr \<lparr>heap = (\<lambda>_. None)(0 \<mapsto> read_csv csv, Suc 0 \<mapsto> f'), next_addr = Suc (Suc 0),
                   df = Some 0, df_cleaned = Some (Suc 0)\<rparr>)"
  by (cases "clean_frame (read_csv csv)")
     (simp_all add: cleaning_def clean_frame_def alloc_def init_state_def deref_def mutate_def
        fun_upd_twist)

lemma clean_eq: "clean csv = clean_frame (read_csv csv)"
  by (cases "clean_frame (read_csv csv)") (simp_all add: clean_def cleaning_eq deref_def)

lemma raw_table_eq:
  "raw_table csv = bnd (clean_frame (read_csv csv)) (\<lambda>_. Inr (read_csv csv))"
  by (cases "clean_frame (read_csv csv)") (simp_all add: raw_table_def cleaning_eq deref_def)

lemma rows_astype_loop [simp]: "rows (astype_loop cols f) = rows f"
  unfolding astype_loop_def by (induction cols arbitrary: f) (simp_all add: astype_category_def)

lemma set_column_rows:
  "set_column c vals f = Inr g \<Longrightarrow>
     length vals = length (rows f) \<and> rows g = map (\<lambda>(r, v). r(c := v)) (zip (rows f) vals)"
  by (auto simp: set_column_def split: if_splits)

lemma rows_prepared:
  "rows (astype_loop cs (fillna [Hospitalizations, Fatalities] (Num 0)
             (fillna categorical_cols (Str ''Unknown'') f))) = map filled (rows f)"
  by (simp add: fillna_def filled_def)

lemma clean_frame_rows:
  assumes "clean_frame f = Inr g"
  shows "length (rows g) = length (rows f)"
    and "i < length (rows f) \<Longrightarrow>
           \<exists>h. hospitalized_flag (filled (rows f ! i) Hospitalizations) = Inr h \<and>
               rows g ! i = (filled (rows f ! i))(Hospitalized := h)"
proof -
  define f' where "f' = astype_loop (categorical_cols @ [State, Month])
          (fillna [Hospitalizations, Fatalities] (Num 0)
             (fillna categorical_cols (Str ''Unknown'') f))"
  from assms obtain vals where
    v: "apply_series hospitalized_flag (column f' Hospitalizations) = Inr vals"
    and s: "set_column Hospitalized vals f' = Inr g"
    by (auto simp: clean_frame_def derive_hospitalized_def bnd_eq_Inr f'_def)
  have rf: "rows f' = map filled (rows f)"
    unfolding f'_def by (rule rows_prepared)
  have lv: "length vals = length (rows f)"
    using apply_series_length [OF v] by (simp add: column_def rf)
  have g: "rows g = map (\<lambda>(r, v). r(Hospitalized := v)) (zip (map filled (rows f)) vals)"
    using set_column_rows [OF s] by (simp add: rf)
  show "length (rows g) = length (rows f)" using g lv by simp
  assume i: "i < length (rows f)"
  have "hospitalized_flag (column f' Hospitalizations ! i) = Inr (vals ! i)"
    using apply_series_nth [OF v] i by (simp add: column_def rf)
  then have "hospitalized_flag (filled (rows f ! i) Hospitalizations) = Inr (vals ! i)"
    using i by (simp add: column_def rf)
  moreover have "rows g ! i = (filled (rows f ! i))(Hospitalized := vals ! i)"
    using g i lv by simp
  ultimately show "\<exists>h. hospitalized_flag (filled (rows f ! i) Hospitalizations) = Inr h \<and>
               rows g ! i = (filled (rows f ! i))(Hospitalized := h)" by blast
qed

lemma clean_length: "clean csv = Inr g \<Longrightarrow> length (rows g) = length csv"
  using clean_frame_rows(1) [of "read_csv csv" g] by (simp add: clean_eq read_csv_def)

lemma clean_row:
  assumes "clean csv = Inr g" and "i < length csv"
  shows "\<exists>h. hospitalized_flag (filled (csv ! i) Hospitalizations) = Inr h \<and>
               rows g ! i = (filled (csv ! i))(Hospitalized := h)"
  using clean_frame_rows(2) [of "read_csv csv" g i] assms by (simp add: clean_eq read_csv_def)

lemma filled_Hospitalizations:
  "filled r Hospitalizations = (if r Hospitalizations = NaN then Num 0 else r Hospitalizations)"
  by (simp add: filled_def fillna_row_def categorical_cols_def)

lemma filled_Fatalities:
  "filled r Fatalities = (if r Fatalities = NaN then Num 0 else r Fatalities)"
  by (simp add: filled_def fillna_row_def categorical_cols_def)

lemma filled_categorical:
  "c \<in> set categorical_cols \<Longrightarrow> filled r c = (if r c = NaN then Str ''Unknown'' else r c)"
  by (auto simp add: filled_def fillna_row_def categorical_cols_def)

lemma filled_other:
  "c \<notin> set categorical_cols \<Longrightarrow> c \<noteq> Hospitalizations \<Longrightarrow> c \<noteq> Fatalities \<Longrightarrow> filled r c = r c"
  by (simp add: filled_def fillna_row_def)

lemma hospitalized_flag_Inr:
  "hospitalized_flag x = Inr h \<Longrightarrow>
     (h = Num 1 \<or> h = Num 0) \<and> (h = Num 1 \<longleftrightarrow> (\<exists>v. x = Num v \<and> v > 0))"
  by (cases x) (auto simp: hospitalized_flag_def split: if_splits)

lemma clean_total:
  assumes "\<And>r s. r \<in> set csv \<Longrightarrow> r Hospitalizations \<noteq> Str s"
  shows "\<exists>g. clean csv = Inr g"
proof -
  define f' where "f' = astype_loop (categorical_cols @ [State, Month])
          (fillna [Hospitalizations, Fatalities] (Num 0)
             (fillna categorical_cols (Str ''Unknown'') (read_csv csv)))"
  have rf: "rows f' = map filled csv"
    unfolding f'_def rows_prepared by (simp add: read_csv_def)
  have "\<exists>y. hospitalized_flag x = Inr y" if "x \<in> set (column f' Hospitalizations)" for x
  proof -
    from that obtain r where "r \<in> set csv" "x = filled r Hospitalizations"
      by (auto simp: column_def rf)
    with assms show ?thesis
      by (cases "r Hospitalizations") (auto simp: filled_Hospitalizations hospitalized_flag_def)
  qed
  then obtain vals where v: "apply_series hospitalized_flag (column f' Hospitalizations) = Inr vals"
    using apply_series_total by blast
  have "length vals = length (rows f')"
    using apply_series_length [OF v] by (simp add: column_def)
  then show ?thesis
    using v by (simp add: clean_eq clean_frame_def derive_hospitalized_def set_column_def
        f'_def [symmetric])
qed

lemma example_clean: "\<exists>g. clean example_rows = Inr g"
  by (rule clean_total) (auto simp: example_rows_def blank_row_def)

text \<open>
  Claim C1. In every row of the cleaned table the label Hospitalized is 0 or 1, and it is 1
  exactly when the Hospitalizations count of that row, after imputation, is a number
  greater than 0. In particular a count of 0 gives the label 0 and a count of 1 gives 1.
\<close>


theorem hospitalized_iff_positive:
  assumes "clean csv = Inr g" and "i < length (rows g)"
  shows "((rows g ! i) Hospitalized = Num 1 \<or> (rows g ! i) Hospitalized = Num 0) \<and>
         ((rows g ! i) Hospitalized = Num 1 \<longleftrightarrow>
            (\<exists>v. (rows g ! i) Hospitalizations = Num v \<and> v > 0)) \<and>
         ((rows g ! i) Hospitalizations = Num 0 \<longrightarrow> (rows g ! i) Hospitalized = Num 0) \<and>
         ((rows g ! i) Hospitalizations = Num 1 \<longrightarrow> (rows g ! i) Hospitalized = Num 1)"
proof -
  from assms have i: "i < length csv" by (simp add: clean_length)
  from clean_row [OF assms(1) i] obtain h where
    h: "hospitalized_flag (filled (csv ! i) Hospitalizations) = Inr h"
    and r: "rows g ! i = (filled (csv ! i))(Hospitalized := h)" by blast
  have H: "(rows g ! i) Hospitalized = h" and Z: "(rows g ! i) Hospitalizations = filled (csv ! i) Hospitalizations"
    by (simp_all add: r)
  from hospitalized_flag_Inr [OF h] show ?thesis
    unfolding H Z by auto
qed

theorem hospitalized_iff_positive_witness:
  "\<exists>g. clean example_rows = Inr g \<and> 0 < length (rows g) \<and>
       (rows g ! 0) Hospitalizations = Num 2 \<and> (rows g ! 0) Hospitalized = Num 1"
proof -
  from example_clean obtain g where g: "clean example_rows = Inr g" by blast
  have l: "0 < length (rows g)" using clean_length [OF g] by (simp add: example_rows_def)
  have "0 < length example_rows" by (simp add: example_rows_def)
  from clean_row [OF g this] have z: "(rows g ! 0) Hospitalizations = Num 2"
    by (auto simp: example_rows_def blank_row_def filled_Hospitalizations)
  show ?thesis using g l z hospitalized_iff_positive [OF g l] by auto
qed

lemma cleaned_column_eq:
  assumes "clean csv = Inr g"
  shows "cleaned_column csv c = Inr (map (\<lambda>i. (rows g ! i) c) [0..<length csv])"
proof -
  have "column g c = map (\<lambda>i. (rows g ! i) c) [0..<length (rows g)]"
    unfolding column_def by (rule nth_equalityI) simp_all
  then show ?thesis using assms by (simp add: cleaned_column_def clean_length)
qed

lemma clean_cell:
  assumes "clean csv = Inr g" and "i < length csv" and "c \<noteq> Hospitalized"
  shows "(rows g ! i) c = filled (csv ! i) c"
  using clean_row [OF assms(1,2)] assms(3) by auto

text \<open>
  Claim C2, as stated, fails: a report whose Location is the text \<^verbatim>\<open>Unknown\<close> keeps
  it, so the cleaned field equals \<^verbatim>\<open>Unknown\<close> although the raw field was present.
\<close>

theorem imputation_counterexample:
  "cleaned_column [unknown_row] Location = Inr [Str ''Unknown''] \<and>
   \<not> missing (unknown_row Location)"
proof -
  have "\<exists>g. clean [unknown_row] = Inr g"
    by (rule clean_total) (simp add: unknown_row_def blank_row_def)
  then obtain g where g: "clean [unknown_row] = Inr g" ..
  have "(rows g ! 0) Location = Str ''Unknown''"
    using clean_cell [OF g, of 0 Location]
    by (simp add: filled_categorical categorical_cols_def unknown_row_def)
  then have "cleaned_column [unknown_row] Location = Inr [Str ''Unknown'']"
    by (simp add: cleaned_column_eq [OF g])
  then show ?thesis
    by (simp add: missing_def unknown_row_def)
qed

text \<open>
  Claim C2, amended. In every cleaned row each of the six fields Location, Food, Ingredient,
  Species, Serotype/Genotype and Status is present; it is \<^verbatim>\<open>Unknown\<close> when the raw
  field was missing and the raw value otherwise, so it equals \<^verbatim>\<open>Unknown\<close> exactly when
  the raw field was missing or was that text already. Hospitalizations and Fatalities are 0
  when the raw field was missing and the raw value otherwise.
\<close>

theorem imputation:
  assumes "clean csv = Inr g" and "i < length csv"
  shows "(\<forall>c \<in> set categorical_cols.
            \<not> missing ((rows g ! i) c) \<and>
            (rows g ! i) c = (if missing ((csv ! i) c) then Str ''Unknown'' else (csv ! i) c) \<and>
            ((rows g ! i) c = Str ''Unknown'' \<longleftrightarrow>
               missing ((csv ! i) c) \<or> (csv ! i) c = Str ''Unknown'')) \<and>
         (\<forall>c \<in> {Hospitalizations, Fatalities}.
            (rows g ! i) c = (if missing ((csv ! i) c) then Num 0 else (csv ! i) c))"
proof -
  have cat: "(rows g ! i) c = (if missing ((csv ! i) c) then Str ''Unknown'' else (csv ! i) c)"
    if "c \<in> set categorical_cols" for c
  proof -
    from that have "c \<noteq> Hospitalized" by (auto simp: categorical_cols_def)
    from clean_cell [OF assms this] that show ?thesis
      by (simp add: filled_categorical missing_def)
  qed
  have num: "(rows g ! i) c = (if missing ((csv ! i) c) then Num 0 else (csv ! i) c)"
    if "c \<in> {Hospitalizations, Fatalities}" for c
  proof -
    from that have "c \<noteq> Hospitalized" by auto
    from clean_cell [OF assms this] that show ?thesis
      by (auto simp: filled_Hospitalizations filled_Fatalities missing_def)
  qed
  from cat num show ?thesis by (auto simp: missing_def)
qed

theorem imputation_witness:
  "\<exists>g. clean example_rows = Inr g \<and> 2 < length example_rows \<and>
       (rows g ! 2) Food = Str ''Unknown'' \<and> (rows g ! 2) Location = Str ''Unknown'' \<and>
       (rows g ! 2) Fatalities = Num 0 \<and> (rows g ! 2) Hospitalizations = Num 1"
proof -
  from example_clean obtain g where g: "clean example_rows = Inr g" ..
  have l: "2 < length example_rows" by (simp add: example_rows_def)
  have r: "example_rows ! 2 = blank_row(Year := Num 2012, Month := Str ''July'', State := Str ''CA'',
        Illnesses := Num 4, Hospitalizations := Num 1)"
    by (simp add: example_rows_def)
  show ?thesis
    using g l imputation [OF g l]
    by (simp add: r categorical_cols_def missing_def blank_row_def)
qed

text \<open>
  Claim C3. When the cleaning block has run, the table \<^verbatim>\<open>df\<close> points to is still the
  table that was read, \<^verbatim>\<open>df_cleaned\<close> is another object, and the cleaned table has
  exactly as many rows as the input.
\<close>

theorem cleaning_preserves_rows_and_input:
  assumes "cleaning csv = Inr s"
  shows "deref s (df s) = Inr (read_csv csv) \<and> df s \<noteq> df_cleaned s \<and>
         (\<exists>g. deref s (df_cleaned s) = Inr g \<and> length (rows g) = length csv)"
proof -
  from assms obtain g where g: "clean_frame (read_csv csv) = Inr g"
    and s: "s = \<lparr>heap = (\<lambda>_. None)(0 \<mapsto> read_csv csv, Suc 0 \<mapsto> g), next_addr = Suc (Suc 0),
                   df = Some 0, df_cleaned = Some (Suc 0)\<rparr>"
    by (auto simp: cleaning_eq bnd_eq_Inr)
  have "length (rows g) = length csv"
    using g clean_length [of csv g] by (simp add: clean_eq)
  then show ?thesis by (simp add: s deref_def)
qed

theorem cleaning_preserves_rows_and_input_witness:
  "\<exists>s. cleaning example_rows = Inr s \<and> deref s (df s) = Inr (read_csv example_rows) \<and>
       (\<exists>g. deref s (df_cleaned s) = Inr g \<and> length (rows g) = 3)"
proof -
  from example_clean obtain g where "clean_frame (read_csv example_rows) = Inr g"
    by (auto simp: clean_eq)
  then obtain s where s: "cleaning example_rows = Inr s"
    by (simp add: cleaning_eq)
  have "length example_rows = 3" by (simp add: example_rows_def)
  then show ?thesis
    using s cleaning_preserves_rows_and_input [OF s] by auto
qed

text \<open>
  Claim C4, as stated, fails: no statement imputes Month (nor Year, State or Illnesses),
  so a report with an empty Month entry has a missing Month after cleaning.
\<close>

theorem no_missing_counterexample:
  "cleaned_column [no_month_row] Month = Inr [NaN] \<and> missing NaN"
proof -
  have "\<exists>g. clean [no_month_row] = Inr g"
    by (rule clean_total) (simp add: no_month_row_def blank_row_def)
  then obtain g where g: "clean [no_month_row] = Inr g" ..
  have "(rows g ! 0) Month = NaN"
    using clean_cell [OF g, of 0 Month]
    by (simp add: filled_other categorical_cols_def no_month_row_def blank_row_def)
  then show ?thesis
    by (simp add: cleaned_column_eq [OF g] missing_def)
qed

text \<open>
  Claim C4, amended. In every cleaned row the six imputed text fields, Hospitalizations,
  Fatalities and the label Hospitalized are present; Year, Month, State and Illnesses are
  carried over as they were read, present or missing.
\<close>

theorem no_missing_after_cleaning:
  assumes "clean csv = Inr g" and "i < length csv"
  shows "(\<forall>c \<in> set categorical_cols \<union> {Hospitalizations, Fatalities, Hospitalized}.
            \<not> missing ((rows g ! i) c)) \<and>
         (\<forall>c \<in> {Year, Month, State, Illnesses}. (rows g ! i) c = (csv ! i) c)"
proof -
  from clean_row [OF assms] obtain h where
    h: "hospitalized_flag (filled (csv ! i) Hospitalizations) = Inr h"
    and r: "rows g ! i = (filled (csv ! i))(Hospitalized := h)" by blast
  from hospitalized_flag_Inr [OF h] have "h \<noteq> NaN" by auto
  then have 1: "\<not> missing ((rows g ! i) Hospitalized)" by (simp add: r missing_def)
  have 2: "\<not> missing ((rows g ! i) c)" if "c \<in> set categorical_cols" for c
    using that by (auto simp: r filled_categorical missing_def categorical_cols_def)
  have 3: "\<not> missing ((rows g ! i) Hospitalizations)" "\<not> missing ((rows g ! i) Fatalities)"
    by (simp_all add: r filled_Hospitalizations filled_Fatalities missing_def)
  have 4: "(rows g ! i) c = (csv ! i) c" if "c \<in> {Year, Month, State, Illnesses}" for c
    using that by (auto simp: r filled_other categorical_cols_def)
  from 1 2 3 4 show ?thesis by blast
qed

theorem no_missing_after_cleaning_witness:
  "\<exists>g. clean example_rows = Inr g \<and> 2 < length example_rows \<and>
       \<not> missing ((rows g ! 2) Food) \<and> \<not> missing ((rows g ! 2) Hospitalized) \<and>
       (rows g ! 2) Month = Str ''July''"
proof -
  from example_clean obtain g where g: "clean example_rows = Inr g" ..
  have l: "2 < length example_rows" by (simp add: example_rows_def)
  have r: "(example_rows ! 2) Month = Str ''July''"
    by (simp add: example_rows_def)
  show ?thesis
    using g l no_missing_after_cleaning [OF g l]
    by (simp add: r categorical_cols_def)
qed

text \<open>
  Claim C10. A report whose Hospitalizations entry is absent has the count 0 and the label 0
  in the cleaned table.
\<close>

theorem absent_count_not_hospitalized:
  assumes "clean csv = Inr g" and "i < length csv" and "missing ((csv ! i) Hospitalizations)"
  shows "(rows g ! i) Hospitalized = Num 0 \<and> (rows g ! i) Hospitalizations = Num 0"
proof -
  from clean_row [OF assms(1,2)] obtain h where
    h: "hospitalized_flag (filled (csv ! i) Hospitalizations) = Inr h"
    and r: "rows g ! i = (filled (csv ! i))(Hospitalized := h)" by blast
  from assms(3) have z: "filled (csv ! i) Hospitalizations = Num 0"
    by (simp add: filled_Hospitalizations missing_def)
  from h have "h = Num 0" by (simp add: z hospitalized_flag_def)
  then show ?thesis by (simp add: r z)
qed

theorem absent_count_not_hospitalized_witness:
  "\<exists>g. clean absent_count_rows = Inr g \<and> 0 < length absent_count_rows \<and>
       missing ((absent_count_rows ! 0) Hospitalizations) \<and> (rows g ! 0) Hospitalized = Num 0"
proof -
  have "\<exists>g. clean absent_count_rows = Inr g"
    by (rule clean_total) (simp add: absent_count_rows_def blank_row_def)
  then obtain g where g: "clean absent_count_rows = Inr g" ..
  have l: "0 < length absent_count_rows" by (simp add: absent_count_rows_def)
  have m: "missing ((absent_count_rows ! 0) Hospitalizations)"
    by (simp add: absent_count_rows_def blank_row_def missing_def)
  show ?thesis
    using g l m absent_count_not_hospitalized [OF g l m] by simp
qed

text \<open>
  Claim C8. For \<^verbatim>\<open>y_test = [0,1,1,0]\<close> and \<^verbatim>\<open>y_pred = [0,1,0,0]\<close> the confusion matrix,
  rows actual and columns predicted in the label order 0, 1, is \<open>[[2,0],[1,1]]\<close>, and the
  accuracy of the same two vectors is 0.75.
\<close>

theorem scenario_metrics:
  "confusion_matrix [0, 1, 1, 0] [0, 1, 0, 0] = Inr [[2, 0], [1, 1]] \<and>
   accuracy_score [0, 1, 1, 0] [0, 1, 0, 0] = Inr (Some 0.75)"
  by (simp add: confusion_matrix_def accuracy_score_def unique_labels_def)

lemma split_indices_seeded:
  "split_indices rng n num den (Some seed) g =
     (fst (split_indices rng n num den (Some seed) g'), g)"
  by (simp add: split_indices_def Let_def split: prod.splits)

lemma train_test_split_seeded:
  "fst (train_test_split rng X y num den (Some seed) g) =
   fst (train_test_split rng X y num den (Some seed) g')"
  by (simp add: train_test_split_def split_indices_def Let_def split: prod.splits)

lemma take_rows_map:
  "take_rows (map f xs) idx = map_sum id (map f) (take_rows xs idx)"
  by (auto simp: take_rows_def list_all_iff)

lemma length_fit_transform [simp]: "length (fit_transform fit tr X) = length X"
  by (simp add: fit_transform_def)

text \<open>
  Claim C6. With seed 42 and ratio 0.3 the split of a given matrix and label vector gives
  the same training and test row numbers, and the same four partitions, whatever state
  the process-wide generator is in; the split leaves that state as it found it. So two
  runs on the same input give identical partitions.
\<close>

theorem split_reproducible:
  "fst (split_indices rng (length X) 3 10 (Some 42) g1) =
   fst (split_indices rng (length X) 3 10 (Some 42) g2) \<and>
   snd (split_indices rng (length X) 3 10 (Some 42) g1) = g1 \<and>
   fst (train_test_split rng X y 3 10 (Some 42) g1) =
   fst (train_test_split rng X y 3 10 (Some 42) g2)"
  using split_indices_seeded [of rng "length X" 3 10 42 g1 g2]
    train_test_split_seeded [of rng X y 3 10 42 g1 g2]
  by simp

text \<open>
  Claim C7, as stated, fails: the held-out row numbers depend only on the number of rows,
  the ratio and the seed, so the split of the matrix and the split of the scaled matrix
  hold out the same rows. Here on a matrix of four rows.
\<close>

theorem held_out_differs_counterexample:
  "held_out reversing_generator (length sample_matrix) 0 = Inr [3, 2] \<and>
   held_out reversing_generator
     (length (fit_transform (\<lambda>X. length X) (\<lambda>p r. map (\<lambda>x. x - int p) r) sample_matrix)) 1 =
   Inr [3, 2]"
  by (simp add: held_out_def split_indices_def n_test_of_def reversing_generator_def
      sample_matrix_def)

text \<open>
  Claim C7, amended. The split is called twice, on the matrix for the tree model and on
  the scaled matrix for the network, with the same ratio and seed; both calls hold out
  the same row numbers, and the four partitions of the network are those of the tree
  with every feature row scaled.
\<close>

theorem same_held_out_rows:
  "held_out rng (length X) g1 = held_out rng (length (fit_transform fit tr X)) g2 \<and>
   fst (network_split rng fit tr X y g2) =
   map_sum id (\<lambda>(X_train, X_test, y_train, y_test).
                 (map (tr (fit X)) X_train, map (tr (fit X)) X_test, y_train, y_test))
     (fst (tree_split rng X y g1))"
proof -
  have a: "held_out rng (length X) g1 = held_out rng (length (fit_transform fit tr X)) g2"
    using split_indices_seeded [of rng "length X" 3 10 42 g1 g2] by (simp add: held_out_def)
  have "fst (network_split rng fit tr X y g2) = fst (network_split rng fit tr X y g1)"
    unfolding network_split_def by (rule train_test_split_seeded)
  also have "\<dots> = map_sum id (\<lambda>(X_train, X_test, y_train, y_test).
                 (map (tr (fit X)) X_train, map (tr (fit X)) X_test, y_train, y_test))
     (fst (tree_split rng X y g1))"
    by (simp add: network_split_def tree_split_def train_test_split_def fit_transform_def
        take_rows_map bnd_def split: sum.splits prod.splits)
  finally show ?thesis using a by simp
qed

lemma set_strs: "set (strs y) = {s. Str s \<in> set y}"
  by (induction y rule: strs.induct) auto

lemma set_nums: "set (nums y) = {v. Num v \<in> set y}"
  by (induction y rule: nums.induct) auto

lemma le_fit_set:
  assumes "le_fit y = Inr classes"
  shows "set classes = set y"
proof -
  from assms have c: "classes = map Str (sort (remdups (strs y))) @ map Num (sort (remdups (nums y))) @
                (if NaN \<in> set y then [NaN] else [])"
    by (simp add: le_fit_def split: if_splits)
  show ?thesis
  proof (intro set_eqI iffI)
    fix x assume "x \<in> set classes"
    then show "x \<in> set y" unfolding c by (auto simp: set_strs set_nums split: if_splits)
  next
    fix x assume a: "x \<in> set y"
    show "x \<in> set classes"
    proof (cases x)
      case NaN
      with a show ?thesis unfolding c by simp
    next
      case (Num v)
      with a show ?thesis unfolding c by (simp add: set_nums)
    next
      case (Str s)
      with a show ?thesis unfolding c by (simp add: set_strs)
    qed
  qed
qed

lemma le_fit_distinct:
  assumes "le_fit y = Inr classes"
  shows "distinct classes"
proof -
  from assms have c: "classes = map Str (sort (remdups (strs y))) @ map Num (sort (remdups (nums y))) @
                (if NaN \<in> set y then [NaN] else [])"
    by (simp add: le_fit_def split: if_splits)
  have "distinct (map Str (sort (remdups (strs y))))" "distinct (map Num (sort (remdups (nums y))))"
    by (simp_all add: distinct_map inj_on_def)
  then show ?thesis unfolding c by auto
qed

lemma le_fit_sorted:
  assumes "le_fit y = Inr classes"
  shows "sorted_wrt (<) (strs classes)" and "sorted_wrt (<) (nums classes)"
proof -
  from assms have c: "classes = map Str (sort (remdups (strs y))) @ map Num (sort (remdups (nums y))) @
                (if NaN \<in> set y then [NaN] else [])"
    by (simp add: le_fit_def split: if_splits)
  have s1: "strs (map Str xs) = xs" "nums (map Str xs) = []" for xs
    by (induction xs) simp_all
  have s2: "nums (map Num vs) = vs" "strs (map Num vs) = []" for vs
    by (induction vs) simp_all
  have app: "strs (xs @ ys) = strs xs @ strs ys" "nums (xs @ ys) = nums xs @ nums ys" for xs ys
    by (induction xs rule: strs.induct) simp_all
  show "sorted_wrt (<) (strs classes)"
    unfolding c by (simp add: app s1 s2 strict_sorted_iff)
  show "sorted_wrt (<) (nums classes)"
    unfolding c by (simp add: app s1 s2 strict_sorted_iff)
qed

lemma index_of_Some:
  "index_of x cs = Some k \<Longrightarrow> k < length cs \<and> cs ! k = x"
  by (induction cs arbitrary: k) (auto split: if_splits)

lemma index_of_mem: "x \<in> set cs \<Longrightarrow> \<exists>k. index_of x cs = Some k"
  by (induction cs) auto

lemma index_of_nth: "distinct cs \<Longrightarrow> k < length cs \<Longrightarrow> index_of (cs ! k) cs = Some k"
proof (induction cs arbitrary: k)
  case Nil
  then show ?case by simp
next
  case (Cons c cs)
  then show ?case by (cases k) auto
qed

lemma le_transform_nth:
  assumes "le_transform classes y = Inr codes" and "i < length y"
  shows "codes ! i < length classes \<and> classes ! (codes ! i) = y ! i"
proof -
  from apply_series_nth [OF assms [unfolded le_transform_def]]
  have "index_of (y ! i) classes = Some (codes ! i)"
    by (auto split: option.splits)
  then show ?thesis by (rule index_of_Some)
qed

lemma le_transform_length:
  "le_transform classes y = Inr codes \<Longrightarrow> length codes = length y"
  unfolding le_transform_def by (rule apply_series_length)

lemma le_transform_total:
  assumes "set y \<subseteq> set classes"
  shows "\<exists>codes. le_transform classes y = Inr codes"
  unfolding le_transform_def
proof (rule apply_series_total)
  fix x assume "x \<in> set y"
  with assms have "x \<in> set classes" by auto
  then obtain k where "index_of x classes = Some k" using index_of_mem by fastforce
  then show "\<exists>k. (case index_of x classes of None \<Rightarrow> Inl ValueError | Some k \<Rightarrow> Inr k) = Inr k"
    by simp
qed

lemma apply_series_eqI:
  "length ys = length xs \<Longrightarrow> (\<And>i. i < length xs \<Longrightarrow> g (xs ! i) = Inr (ys ! i)) \<Longrightarrow>
     apply_series g xs = Inr ys"
proof (induction xs arbitrary: ys)
  case Nil
  then show ?case by simp
next
  case (Cons x xs)
  then obtain z zs where ys: "ys = z # zs" by (cases ys) auto
  from Cons.prems(2) [of 0] have z: "g x = Inr z" by (simp add: ys)
  have "apply_series g xs = Inr zs"
  proof (rule Cons.IH)
    show "length zs = length xs" using Cons.prems(1) by (simp add: ys)
    fix i assume "i < length xs"
    then show "g (xs ! i) = Inr (zs ! i)" using Cons.prems(2) [of "Suc i"] by (simp add: ys)
  qed
  with z show ?case by (simp add: ys)
qed

lemma le_roundtrip:
  assumes "le_transform classes y = Inr codes"
  shows "le_inverse_transform classes codes = Inr y"
  unfolding le_inverse_transform_def
proof (rule apply_series_eqI)
  show "length y = length codes" using le_transform_length [OF assms] by simp
  fix i assume "i < length codes"
  then have "i < length y" using le_transform_length [OF assms] by simp
  from le_transform_nth [OF assms this]
  show "(if codes ! i < length classes then Inr (classes ! (codes ! i)) else Inl ValueError) = Inr (y ! i)"
    by simp
qed

lemma set_column_column:
  assumes "set_column c vals f = Inr f'"
  shows "column f' c' = (if c' = c then vals else column f c')"
    and "is_category f' = (is_category f)(c := False)"
    and "length (rows f') = length (rows f)"
proof -
  from set_column_rows [OF assms] have l: "length vals = length (rows f)"
    and r: "rows f' = map (\<lambda>(r, v). r(c := v)) (zip (rows f) vals)" by simp_all
  show "column f' c' = (if c' = c then vals else column f c')"
    unfolding column_def r using l by (auto intro!: nth_equalityI)
  show "is_category f' = (is_category f)(c := False)"
    using assms by (auto simp: set_column_def split: if_splits)
  show "length (rows f') = length (rows f)" using l r by simp
qed

lemma le_fit_transform_Inr:
  "le_fit_transform y = Inr (classes, codes) \<longleftrightarrow>
     le_fit y = Inr classes \<and> le_transform classes y = Inr codes"
  by (auto simp: le_fit_transform_def bnd_eq_Inr)

lemma encode_loop_spec:
  assumes "encode_loop cs (f, d) = Inr (f', d')" and "distinct cs"
  shows "(c \<in> set cs \<and> is_category f c \<longrightarrow>
            (\<exists>classes codes. le_fit (column f c) = Inr classes \<and>
               le_transform classes (column f c) = Inr codes \<and>
               column f' c = map (\<lambda>k. Num (int k)) codes \<and> d' c = Some classes)) \<and>
         (\<not> (c \<in> set cs \<and> is_category f c) \<longrightarrow> column f' c = column f c \<and> d' c = d c)"
  using assms
proof (induction cs arbitrary: f d)
  case Nil
  then show ?case by simp
next
  case (Cons c0 cs)
  from Cons.prems(2) have c0: "c0 \<notin> set cs" and dc: "distinct cs" by simp_all
  show ?case
  proof (cases "is_category f c0")
    case False
    with Cons.prems(1) have e: "encode_loop cs (f, d) = Inr (f', d')" by simp
    from Cons.IH [OF e dc] False show ?thesis by auto
  next
    case True
    with Cons.prems(1) obtain classes codes f1 where
      ft: "le_fit_transform (column f c0) = Inr (classes, codes)"
      and sc: "set_column c0 (map (\<lambda>k. Num (int k)) codes) f = Inr f1"
      and e: "encode_loop cs (f1, d(c0 \<mapsto> classes)) = Inr (f', d')"
      by (auto simp: bnd_eq_Inr)
    note ih = Cons.IH [OF e dc]
    note col = set_column_column(1) [OF sc]
    note cat = set_column_column(2) [OF sc]
    show ?thesis
    proof (cases "c = c0")
      case True
      with ih c0 have "column f' c0 = column f1 c0" "d' c0 = (d(c0 \<mapsto> classes)) c0" by auto
      then have "column f' c0 = map (\<lambda>k. Num (int k)) codes" "d' c0 = Some classes"
        by (simp_all add: col)
      with ft \<open>is_category f c0\<close> True show ?thesis
        by (auto simp: le_fit_transform_Inr)
    next
      case False
      then have "column f1 c = column f c" "is_category f1 c = is_category f c"
        "(d(c0 \<mapsto> classes)) c = d c"
        by (simp_all add: col cat)
      with ih False show ?thesis by auto
    qed
  qed
qed

lemma uniform_le_fit: "uniform y \<Longrightarrow> \<exists>classes. le_fit y = Inr classes"
  by (auto simp: uniform_def le_fit_def)

lemma encode_loop_total:
  assumes "distinct cs" and "\<And>c. c \<in> set cs \<Longrightarrow> is_category f c \<Longrightarrow> uniform (column f c)"
  shows "\<exists>r. encode_loop cs (f, d) = Inr r"
  using assms
proof (induction cs arbitrary: f d)
  case Nil
  then show ?case by simp
next
  case (Cons c0 cs)
  from Cons.prems(1) have c0: "c0 \<notin> set cs" and dc: "distinct cs" by simp_all
  show ?case
  proof (cases "is_category f c0")
    case False
    have "\<exists>r. encode_loop cs (f, d) = Inr r"
      by (rule Cons.IH [OF dc]) (simp add: Cons.prems(2))
    with False show ?thesis by simp
  next
    case True
    then have "uniform (column f c0)" by (simp add: Cons.prems(2))
    then obtain classes where fit: "le_fit (column f c0) = Inr classes"
      using uniform_le_fit by blast
    then have "set (column f c0) \<subseteq> set classes" by (simp add: le_fit_set)
    then obtain codes where tr: "le_transform classes (column f c0) = Inr codes"
      using le_transform_total by blast
    have "length codes = length (rows f)"
      using le_transform_length [OF tr] by (simp add: column_def)
    then obtain f1 where sc: "set_column c0 (map (\<lambda>k. Num (int k)) codes) f = Inr f1"
      by (simp add: set_column_def)
    have "\<exists>r. encode_loop cs (f1, d(c0 \<mapsto> classes)) = Inr r"
    proof (rule Cons.IH [OF dc])
      fix c assume c: "c \<in> set cs" and i: "is_category f1 c"
      from c c0 have ne: "c \<noteq> c0" by auto
      with i have "is_category f c" by (simp add: set_column_column(2) [OF sc])
      with c have "uniform (column f c)" by (simp add: Cons.prems(2))
      with ne show "uniform (column f1 c)" by (simp add: set_column_column(1) [OF sc])
    qed
    with True fit tr sc show ?thesis by (simp add: le_fit_transform_def)
  qed
qed

lemma is_category_astype_loop:
  "is_category (astype_loop cs f) c = (c \<in> set cs \<or> is_category f c)"
  unfolding astype_loop_def by (induction cs arbitrary: f) (auto simp: astype_category_def)

lemma clean_is_category:
  assumes "clean csv = Inr g"
  shows "is_category g c = (c \<in> set (categorical_cols @ [State, Month]))"
proof -
  from assms obtain vals where
    "set_column Hospitalized vals (astype_loop (categorical_cols @ [State, Month])
          (fillna [Hospitalizations, Fatalities] (Num 0)
             (fillna categorical_cols (Str ''Unknown'') (read_csv csv)))) = Inr g"
    by (auto simp: clean_eq clean_frame_def derive_hospitalized_def bnd_eq_Inr)
  from set_column_column(2) [OF this] show ?thesis
    by (auto simp: is_category_astype_loop fillna_def read_csv_def categorical_cols_def)
qed

lemma clean_column:
  assumes "clean csv = Inr g" and "c \<noteq> Hospitalized"
  shows "column g c = map (\<lambda>r. filled r c) csv"
  unfolding column_def
proof (rule nth_equalityI)
  show "length (map (\<lambda>r. r c) (rows g)) = length (map (\<lambda>r. filled r c) csv)"
    using clean_length [OF assms(1)] by simp
  fix i assume "i < length (map (\<lambda>r. r c) (rows g))"
  then have i: "i < length csv" using clean_length [OF assms(1)] by simp
  from clean_row [OF assms(1) i] assms(2) have "(rows g ! i) c = filled (csv ! i) c" by auto
  with i show "map (\<lambda>r. r c) (rows g) ! i = map (\<lambda>r. filled r c) csv ! i"
    using clean_length [OF assms(1)] by simp
qed

text \<open>
  Claim C5. After cleaning, the encoding loop leaves Year as it is and stores no encoder
  for it. For each of Month, State, Location and Food it stores the fitted classes; they
  are distinct, they are exactly the values observed in the whole column, position in the
  class list is a bijection from the codes onto the observed values, the column is
  replaced by the codes of its values, decoding the codes gives back the column, every
  class is encoded to its own position, and the classes stand in ascending order of
  their labels.
\<close>

theorem label_encoding_bijective:
  assumes "clean csv = Inr g" and "encode g = Inr (m, le_dict)"
  shows "le_dict Year = None \<and> column m Year = column g Year \<and>
     (\<forall>c \<in> {Month, State, Location, Food}. \<exists>classes codes.
        le_dict c = Some classes \<and> column m c = map (\<lambda>k. Num (int k)) codes \<and>
        distinct classes \<and> set classes = set (column g c) \<and>
        bij_betw (\<lambda>k. classes ! k) {..<length classes} (set (column g c)) \<and>
        le_transform classes (column g c) = Inr codes \<and>
        le_inverse_transform classes codes = Inr (column g c) \<and>
        (\<forall>k<length classes. le_transform classes [classes ! k] = Inr [k]) \<and>
        sorted_wrt (<) (strs classes) \<and> sorted_wrt (<) (nums classes))"
proof -
  have e: "encode_loop features (g, Map.empty) = Inr (m, le_dict)"
    using assms(2) by (simp add: encode_def)
  have d: "distinct features" by (simp add: features_def)
  note spec = encode_loop_spec [OF e d]
  have "\<not> is_category g Year"
    by (simp add: clean_is_category [OF assms(1)] categorical_cols_def)
  with spec [of Year] have y: "le_dict Year = None" "column m Year = column g Year" by auto
  have "\<exists>classes codes.
        le_dict c = Some classes \<and> column m c = map (\<lambda>k. Num (int k)) codes \<and>
        distinct classes \<and> set classes = set (column g c) \<and>
        bij_betw (\<lambda>k. classes ! k) {..<length classes} (set (column g c)) \<and>
        le_transform classes (column g c) = Inr codes \<and>
        le_inverse_transform classes codes = Inr (column g c) \<and>
        (\<forall>k<length classes. le_transform classes [classes ! k] = Inr [k]) \<and>
        sorted_wrt (<) (strs classes) \<and> sorted_wrt (<) (nums classes)"
    if c: "c \<in> {Month, State, Location, Food}" for c
  proof -
    from c have "c \<in> set features" "is_category g c"
      by (auto simp: features_def clean_is_category [OF assms(1)] categorical_cols_def)
    with spec [of c] obtain classes codes where
      fit: "le_fit (column g c) = Inr classes"
      and tr: "le_transform classes (column g c) = Inr codes"
      and cm: "column m c = map (\<lambda>k. Num (int k)) codes"
      and ld: "le_dict c = Some classes" by auto
    note dist = le_fit_distinct [OF fit]
    note st = le_fit_set [OF fit]
    have bij: "bij_betw (\<lambda>k. classes ! k) {..<length classes} (set (column g c))"
      using bij_betw_nth [OF dist refl st [symmetric]] by simp
    have one: "le_transform classes [classes ! k] = Inr [k]" if "k < length classes" for k
      using index_of_nth [OF dist that] by (simp add: le_transform_def)
    from ld cm dist st bij tr le_roundtrip [OF tr] one le_fit_sorted [OF fit]
    show ?thesis by blast
  qed
  with y show ?thesis by blast
qed

lemma example_encode:
  assumes "clean example_rows = Inr g"
  shows "\<exists>r. encode g = Inr r"
  unfolding encode_def
proof (rule encode_loop_total)
  show "distinct features" by (simp add: features_def)
  fix c assume "c \<in> set features"
  then have c: "c \<in> {Year, Month, State, Location, Food}" by (simp add: features_def)
  then have "c \<noteq> Hospitalized" by auto
  from clean_column [OF assms this] c show "uniform (column g c)"
    by (auto simp: uniform_def example_rows_def blank_row_def filled_def fillna_row_def
        categorical_cols_def)
qed

theorem label_encoding_bijective_witness:
  "\<exists>g m le_dict. clean example_rows = Inr g \<and> encode g = Inr (m, le_dict) \<and>
     le_dict Year = None \<and>
     (\<exists>classes. le_dict Month = Some classes \<and> distinct classes \<and>
        set classes = {Str ''May'', Str ''June'', Str ''July''})"
proof -
  from example_clean obtain g where g: "clean example_rows = Inr g" ..
  from example_encode [OF g] obtain m le_dict where e: "encode g = Inr (m, le_dict)" by auto
  have "column g Month = [Str ''May'', Str ''June'', Str ''July'']"
    using clean_column [OF g, of Month]
    by (simp add: example_rows_def blank_row_def filled_def fillna_row_def categorical_cols_def)
  then show ?thesis
    using g e label_encoding_bijective [OF g e] by auto
qed

end
